theory Spec2Isabelle
  imports Main
begin

section \<open>Markdown transformers of lexical-markdown (v2/MarkdownTransformers.js)\<close>

text \<open>
  The theory embeds the element and text-match transformers of
  \<^verbatim>\<open>packages/lexical-markdown/src/v2/MarkdownTransformers.js\<close>: their regular
  expressions, their \<^verbatim>\<open>replace\<close> functions and their \<^verbatim>\<open>export\<close> functions.

  Strings are \<^typ>\<open>string\<close>; the characters considered are the ASCII ones, so the
  classes \<^verbatim>\<open>\s\<close>, \<^verbatim>\<open>\w\<close> and \<^verbatim>\<open>\d\<close> are read on code units below 128 (the
  Unicode spaces that \<^verbatim>\<open>\s\<close> also accepts are outside the model).
  A JavaScript value that may be \<^verbatim>\<open>undefined\<close> is an \<^typ>\<open>'a option\<close>.
\<close>

subsection \<open>Numbers and strings of JavaScript, as far as the file uses them\<close>

text \<open>
  The numbers this file computes with are list start values, loop counters and lengths:
  non-negative integers, and \<^verbatim>\<open>NaN\<close> when \<^verbatim>\<open>Number\<close> is given \<^verbatim>\<open>undefined\<close>.
  Integers are exact in a double below \<open>2 ^ 53\<close>; the rounding above it is not modelled.
\<close>

datatype jsnum = Num nat | NaN

fun js_add :: "jsnum \<Rightarrow> nat \<Rightarrow> jsnum" where
  "js_add (Num a) b = Num (a + b)"
| "js_add NaN b = NaN"

definition is_digit :: "char \<Rightarrow> bool" where
  "is_digit c = (let n = (of_char c :: nat) in 48 \<le> n \<and> n \<le> 57)"

definition is_word :: "char \<Rightarrow> bool" where
  "is_word c = (let n = (of_char c :: nat) in
     (48 \<le> n \<and> n \<le> 57) \<or> (65 \<le> n \<and> n \<le> 90) \<or> (97 \<le> n \<and> n \<le> 122) \<or> n = 95)"

definition is_space :: "char \<Rightarrow> bool" where
  "is_space c = (let n = (of_char c :: nat) in (9 \<le> n \<and> n \<le> 13) \<or> n = 32)"

definition digit_val :: "char \<Rightarrow> nat" where
  "digit_val c = (of_char c :: nat) - 48"

definition dec :: "string \<Rightarrow> nat" where
  "dec ds = foldl (\<lambda>acc c. 10 * acc + digit_val c) 0 ds"

text \<open>
  \<^verbatim>\<open>Number(v)\<close>: \<^verbatim>\<open>undefined\<close> gives \<^verbatim>\<open>NaN\<close>, the empty string 0, a string of
  decimal digits its value. The file only passes what \<^verbatim>\<open>\d{1,}\<close> captured or the
  digit of a heading tag; the other spellings of a number that JavaScript accepts
  (sign, fraction, exponent, hexadecimal, surrounding blanks) are not modelled and come
  out as \<^verbatim>\<open>NaN\<close> here.
\<close>

definition Number :: "string option \<Rightarrow> jsnum" where
  "Number v = (case v of
       None \<Rightarrow> NaN
     | Some s \<Rightarrow> if s = [] then Num 0 else if list_all is_digit s then Num (dec s) else NaN)"

text \<open>The decimal spelling of a number, as a template string or \<^verbatim>\<open>+\<close> on a string gives it.\<close>

fun digits_of :: "nat \<Rightarrow> string" where
  "digits_of n = (if n < 10 then [char_of (48 + n)] else digits_of (n div 10) @ [char_of (48 + n mod 10)])"

declare digits_of.simps [simp del]

fun String :: "jsnum \<Rightarrow> string" where
  "String (Num n) = digits_of n"
| "String NaN = ''NaN''"

text \<open>\<^verbatim>\<open>s.repeat(n)\<close>; a count of \<^verbatim>\<open>NaN\<close> is 0.\<close>

fun repeat :: "string \<Rightarrow> jsnum \<Rightarrow> string" where
  "repeat s (Num n) = concat (replicate n s)"
| "repeat s NaN = []"

text \<open>\<^verbatim>\<open>output.join(sep)\<close>.\<close>

fun join :: "string \<Rightarrow> string list \<Rightarrow> string" where
  "join sep [] = []"
| "join sep [x] = x"
| "join sep (x # y # ys) = x @ sep @ join sep (y # ys)"

text \<open>\<^verbatim>\<open>a[i]\<close> on an array whose entries may be \<^verbatim>\<open>undefined\<close>: out of range is \<^verbatim>\<open>undefined\<close> too.\<close>

definition at :: "'a option list \<Rightarrow> nat \<Rightarrow> 'a option" where
  "at a i = (if i < length a then a ! i else None)"

subsection \<open>Regular expressions\<close>

text \<open>
  The regular expressions of the file use character classes, bounded and unbounded
  greedy repetition of a class, an optional group, capture groups and the anchors.
  \<open>Grp g r\<close> is the \<open>g\<close>-th capture group, numbered by its opening parenthesis;
  a non-capturing group \<^verbatim>\<open>(?:r)\<close> is \<open>r\<close> itself.
\<close>

datatype cls = Lit char | Word | Space | Digit | OneOf string | NoneOf string

fun cls_ok :: "cls \<Rightarrow> char \<Rightarrow> bool" where
  "cls_ok (Lit d) c = (c = d)"
| "cls_ok Word c = is_word c"
| "cls_ok Space c = is_space c"
| "cls_ok Digit c = is_digit c"
| "cls_ok (OneOf cs) c = (c \<in> set cs)"
| "cls_ok (NoneOf cs) c = (c \<notin> set cs)"

datatype rx =
    Bol
  | Eol
  | Chr cls
  | Rep cls nat "nat option"
  | Opt rx
  | Grp nat rx
  | Cat rx rx

type_synonym captures = "string option list"

text \<open>The first alternative that succeeds, in the order tried.\<close>

fun first_some :: "('a \<Rightarrow> 'b option) \<Rightarrow> 'a list \<Rightarrow> 'b option" where
  "first_some f [] = None"
| "first_some f (x # xs) = (case f x of Some y \<Rightarrow> Some y | None \<Rightarrow> first_some f xs)"

text \<open>
  A backtracking matcher: \<open>rx_match r s i c k\<close> matches \<open>r\<close> in \<open>s\<close> from index \<open>i\<close>
  with the captures \<open>c\<close> so far and hands the end index and the captures to the
  continuation \<open>k\<close>; where the continuation fails, the next shorter repetition is tried.
\<close>

fun rx_match :: "rx \<Rightarrow> string \<Rightarrow> nat \<Rightarrow> captures \<Rightarrow> (nat \<Rightarrow> captures \<Rightarrow> captures option)
    \<Rightarrow> captures option" where
  "rx_match Bol s i c k = (if i = 0 then k i c else None)"
| "rx_match Eol s i c k = (if i = length s then k i c else None)"
| "rx_match (Chr a) s i c k = (if i < length s \<and> cls_ok a (s ! i) then k (Suc i) c else None)"
| "rx_match (Rep a lo hi) s i c k =
     (let n = length (takeWhile (cls_ok a) (drop i s));
          m = (case hi of None \<Rightarrow> n | Some h \<Rightarrow> min n h)
      in first_some (\<lambda>j. k (i + j) c) (rev [lo..<Suc m]))"
| "rx_match (Opt r) s i c k =
     (case rx_match r s i c k of Some x \<Rightarrow> Some x | None \<Rightarrow> k i c)"
| "rx_match (Grp g r) s i c k =
     rx_match r s i c (\<lambda>j c'. k j (c'[g := Some (take (j - i) (drop i s))]))"
| "rx_match (Cat r1 r2) s i c k = rx_match r1 s i c (\<lambda>j c'. rx_match r2 s j c' k)"

text \<open>The number of capture groups of a regular expression.\<close>

fun groups :: "rx \<Rightarrow> nat" where
  "groups (Grp g r) = Suc (groups r)"
| "groups (Opt r) = groups r"
| "groups (Cat r1 r2) = groups r1 + groups r2"
| "groups r = 0"

text \<open>
  \<^verbatim>\<open>s.match(r)\<close> (or \<^verbatim>\<open>r.exec(s)\<close>) for a regular expression without flags: the
  leftmost match, as the array of the whole match and the captures (a group that took no
  part is \<^verbatim>\<open>undefined\<close>), or \<^verbatim>\<open>null\<close>.
\<close>

definition exec :: "rx \<Rightarrow> string \<Rightarrow> captures option" where
  "exec r s =
     first_some
       (\<lambda>i. rx_match r s i (replicate (Suc (groups r)) None)
               (\<lambda>j c. Some (c[0 := Some (take (j - i) (drop i s))])))
       [0..<Suc (length s)]"

text \<open>\<^verbatim>\<open>/^(#{1,6})\s/\<close>\<close>

definition HEADING_regExp :: rx where
  "HEADING_regExp = Cat Bol (Cat (Grp 1 (Rep (Lit CHR ''#'') 1 (Some 6))) (Chr Space))"

text \<open>\<^verbatim>\<open>/^```(\w{1,10})?\s/\<close>; the backtick is the character \<open>0x60\<close>.\<close>

definition CODE_regExp :: rx where
  "CODE_regExp =
     Cat Bol (Cat (Chr (Lit CHR 0x60)) (Cat (Chr (Lit CHR 0x60)) (Cat (Chr (Lit CHR 0x60))
       (Cat (Opt (Grp 1 (Rep Word 1 (Some 10)))) (Chr Space)))))"

text \<open>The three backticks that open a code fence.\<close>

definition fence :: string where
  "fence = [CHR 0x60, CHR 0x60, CHR 0x60]"


text \<open>\<^verbatim>\<open>/^(\s*)(\d{1,})\.\s/\<close>\<close>

definition ORDERED_LIST_regExp :: rx where
  "ORDERED_LIST_regExp =
     Cat Bol (Cat (Grp 1 (Rep Space 0 None)) (Cat (Grp 2 (Rep Digit 1 None))
       (Cat (Chr (Lit CHR ''.'')) (Chr Space))))"

text \<open>\<^verbatim>\<open>/(?:\[([^[]+)\])(?:\(([^(]+)\))$/\<close>, the \<^verbatim>\<open>regExp\<close> of \<^verbatim>\<open>LINK\<close>\<close>

definition LINK_regExp :: rx where
  "LINK_regExp =
     Cat (Chr (Lit CHR ''['')) (Cat (Grp 1 (Rep (NoneOf ''['') 1 None)) (Cat (Chr (Lit CHR '']''))
       (Cat (Chr (Lit CHR ''('')) (Cat (Grp 2 (Rep (NoneOf ''('') 1 None))
         (Cat (Chr (Lit CHR '')'')) Eol)))))"

subsection \<open>The document tree\<close>

text \<open>
  Modelled from the spec: the node classes and their mutation interface
  (\<^verbatim>\<open>lexical\<close>, \<^verbatim>\<open>@lexical/list\<close>, \<^verbatim>\<open>@lexical/rich-text\<close>, \<^verbatim>\<open>@lexical/link\<close>,
  \<^verbatim>\<open>@lexical/code\<close>) are imported by the file and are not part of it. The spec
  gives them as a rooted tree of block nodes and inline nodes in which each child has one
  parent, list blocks nest through a list item whose sole child is a list, and the indent
  of a list item is layout state kept on the item. The three types follow the Flow
  types of the file: a \<^verbatim>\<open>LexicalNode\<close> is a \<^verbatim>\<open>TextNode\<close> or an \<^verbatim>\<open>ElementNode\<close>, and a
  \<^verbatim>\<open>ListNode\<close> is an element with a tag and a start value. A text node carries its
  text and its format flags, a heading its tag (\<^verbatim>\<open>h1\<close> to \<^verbatim>\<open>h6\<close>), a code node its
  language, a list item its indent and a link its URL.
\<close>

datatype list_tag = UL | OL

datatype text_node = TextNode string nat

datatype node =
    Text text_node
  | ElementNode element
and element =
    ParagraphNode "node list"
  | HeadingNode string "node list"
  | QuoteNode "node list"
  | CodeNode "string option" "node list"
  | ListItemNode nat "node list"
  | LinkNode string "node list"
  | ListNodeE list_node
and list_node =
    ListNode list_tag jsnum "node list"

fun getTag :: "list_node \<Rightarrow> list_tag" where
  "getTag (ListNode tag start cs) = tag"

fun getStart :: "list_node \<Rightarrow> jsnum" where
  "getStart (ListNode tag start cs) = start"

fun getChildren :: "element \<Rightarrow> node list" where
  "getChildren (ParagraphNode cs) = cs"
| "getChildren (HeadingNode tag cs) = cs"
| "getChildren (QuoteNode cs) = cs"
| "getChildren (CodeNode lang cs) = cs"
| "getChildren (ListItemNode ind cs) = cs"
| "getChildren (LinkNode url cs) = cs"
| "getChildren (ListNodeE (ListNode tag start cs)) = cs"

definition getChildrenSize :: "element \<Rightarrow> nat" where
  "getChildrenSize e = length (getChildren e)"

definition getFirstChild :: "element \<Rightarrow> node option" where
  "getFirstChild e = (case getChildren e of [] \<Rightarrow> None | c # cs \<Rightarrow> Some c)"

text \<open>
  Modelled from the spec: \<^verbatim>\<open>node.append(...children)\<close> of the tree interface, which
  is not in the file; the children are added after the ones the node has.
\<close>

fun append_node :: "element \<Rightarrow> node list \<Rightarrow> element" where
  "append_node (ParagraphNode cs) xs = ParagraphNode (cs @ xs)"
| "append_node (HeadingNode tag cs) xs = HeadingNode tag (cs @ xs)"
| "append_node (QuoteNode cs) xs = QuoteNode (cs @ xs)"
| "append_node (CodeNode lang cs) xs = CodeNode lang (cs @ xs)"
| "append_node (ListItemNode ind cs) xs = ListItemNode ind (cs @ xs)"
| "append_node (LinkNode url cs) xs = LinkNode url (cs @ xs)"
| "append_node (ListNodeE (ListNode tag start cs)) xs = ListNodeE (ListNode tag start (cs @ xs))"

text \<open>
  Modelled from the spec: the type guards of the node packages, which are not in the file.
  The guards \<^verbatim>\<open>$isListNode\<close>, \<^verbatim>\<open>$isListItemNode\<close>, \<^verbatim>\<open>$isHeadingNode\<close>,
  \<^verbatim>\<open>$isLinkNode\<close> and \<^verbatim>\<open>$isTextNode\<close> take a node or \<^verbatim>\<open>null\<close>. Where the source goes
  on with the narrowed node, the model uses the function that returns it, or a
  \<open>case\<close> on the constructor.
\<close>

fun asListNode :: "node option \<Rightarrow> list_node option" where
  "asListNode (Some (ElementNode (ListNodeE l))) = Some l"
| "asListNode other = None"

definition isListNode :: "node option \<Rightarrow> bool" where
  "isListNode n = (asListNode n \<noteq> None)"

fun asListItemNode :: "node option \<Rightarrow> element option" where
  "asListItemNode (Some (ElementNode (ListItemNode ind cs))) = Some (ListItemNode ind cs)"
| "asListItemNode other = None"

fun asTextNode :: "node option \<Rightarrow> text_node option" where
  "asTextNode (Some (Text t)) = Some t"
| "asTextNode other = None"

text \<open>
  Modelled from the spec: the constructors of the node packages and the accessors of the
  format of a text node, which are not in the file. A new node has no children. A list
  node made without a start value starts at 1 (the file reads the start value of ordered
  lists only); a new list item has indent 0; a new text node has no format flag.
\<close>

definition createListItemNode :: element where
  "createListItemNode = ListItemNode 0 []"

definition createListNode :: "list_tag \<Rightarrow> jsnum option \<Rightarrow> list_node" where
  "createListNode tag start = ListNode tag (case start of None \<Rightarrow> Num 1 | Some n \<Rightarrow> n) []"

definition createHeadingNode :: "string \<Rightarrow> element" where
  "createHeadingNode tag = HeadingNode tag []"

definition createLinkNode :: "string \<Rightarrow> element" where
  "createLinkNode url = LinkNode url []"

definition createTextNode :: "string \<Rightarrow> text_node" where
  "createTextNode text = TextNode text 0"

fun getFormat :: "text_node \<Rightarrow> nat" where
  "getFormat (TextNode text format) = format"

fun setFormat :: "text_node \<Rightarrow> nat \<Rightarrow> text_node" where
  "setFormat (TextNode text format) f = TextNode text f"

text \<open>
  Modelled from the spec: \<^verbatim>\<open>listItem.setIndent(indent)\<close> of \<^verbatim>\<open>@lexical/list\<close>, which is
  not in the file. The spec has the indent as layout state kept on the item: setting it
  moves nothing in the tree. Only a list item has an indent.
\<close>

fun setIndent :: "element \<Rightarrow> nat \<Rightarrow> element" where
  "setIndent (ListItemNode ind cs) n = ListItemNode n cs"
| "setIndent e n = e"

text \<open>
  Modelled from the spec: the position of a node in the tree and the mutations
  \<^verbatim>\<open>replace\<close> and \<^verbatim>\<open>remove\<close>, which are not in the file.
  A node is addressed among its siblings: \<open>prev\<close> are the siblings before it and
  \<open>next\<close> the ones after it, in document order. \<^verbatim>\<open>getPreviousSibling()\<close> is the
  last of \<open>prev\<close>, or \<^verbatim>\<open>null\<close>. \<^verbatim>\<open>replace\<close> and \<^verbatim>\<open>remove\<close> give the new sequence of
  siblings. The selection (\<^verbatim>\<open>select(0, 0)\<close>) is editor state outside the tree and is
  not part of the model.
\<close>

definition getPreviousSibling :: "node list \<Rightarrow> node option" where
  "getPreviousSibling prev = (if prev = [] then None else Some (last prev))"

definition replace_node :: "node list \<Rightarrow> node list \<Rightarrow> node \<Rightarrow> node list" where
  "replace_node prev next n = prev @ [n] @ next"

definition remove_node :: "node list \<Rightarrow> node list \<Rightarrow> node list" where
  "remove_node prev next = prev @ next"

text \<open>
  Modelled from the spec: \<^verbatim>\<open>getTextContent()\<close> of the node classes, which is not in the
  file. The text content of a node is the text of its text nodes in document order. (Between the
  block children of an element the node classes put line breaks; the children of a link
  are inline.)
\<close>

fun getTextContent :: "node \<Rightarrow> string"
  and getTextContentE :: "element \<Rightarrow> string"
  and getTextContentL :: "list_node \<Rightarrow> string"
  and getTextContents :: "node list \<Rightarrow> string" where
  "getTextContent (Text (TextNode text format)) = text"
| "getTextContent (ElementNode e) = getTextContentE e"
| "getTextContentE (ParagraphNode cs) = getTextContents cs"
| "getTextContentE (HeadingNode tag cs) = getTextContents cs"
| "getTextContentE (QuoteNode cs) = getTextContents cs"
| "getTextContentE (CodeNode lang cs) = getTextContents cs"
| "getTextContentE (ListItemNode ind cs) = getTextContents cs"
| "getTextContentE (LinkNode url cs) = getTextContents cs"
| "getTextContentE (ListNodeE l) = getTextContentL l"
| "getTextContentL (ListNode tag start cs) = getTextContents cs"
| "getTextContents [] = []"
| "getTextContents (c # cs) = getTextContent c @ getTextContents cs"

subsection \<open>The transformers\<close>

text \<open>
  A read of \<^verbatim>\<open>.length\<close> on a capture that is \<^verbatim>\<open>undefined\<close> throws a \<^verbatim>\<open>TypeError\<close>.
  \<open>UndefinedCapture\<close> marks the edge of the model: \<^verbatim>\<open>LINK.replace\<close> hands its
  captures to the node constructors, and what these do with \<^verbatim>\<open>undefined\<close> is theirs.
\<close>

datatype error = TypeError | UndefinedCapture

text \<open>
  \<^verbatim>\<open>replaceWithBlock(createNode)\<close>: the created node takes the children and replaces
  the parent node.
\<close>

definition replaceWithBlock ::
  "(captures \<Rightarrow> error + element) \<Rightarrow> node list \<Rightarrow> element \<Rightarrow> node list \<Rightarrow> node list \<Rightarrow> captures
     \<Rightarrow> error + node list" where
  "replaceWithBlock createNode prev parentNode next children match =
     (case createNode match of
        Inl e \<Rightarrow> Inl e
      | Inr node \<Rightarrow> Inr (replace_node prev next (ElementNode (append_node node children))))"

definition LIST_INDENT_SIZE :: nat where
  "LIST_INDENT_SIZE = 4"

text \<open>
  \<^verbatim>\<open>listReplace(listTag)\<close>. The source puts the empty list item into the tree and then,
  through the reference it holds, gives it the children and the indent; the model builds
  the item and puts it in, which gives the same tree. \<^verbatim>\<open>match[1].length\<close> throws where
  the first capture is \<^verbatim>\<open>undefined\<close>.
\<close>

definition listReplace ::
  "list_tag \<Rightarrow> node list \<Rightarrow> element \<Rightarrow> node list \<Rightarrow> node list \<Rightarrow> captures \<Rightarrow> error + node list" where
  "listReplace listTag prev parentNode next children match =
     (let previousNode = getPreviousSibling prev;
          listItem = createListItemNode
      in case at match 1 of
           None \<Rightarrow> Inl TypeError
         | Some ws \<Rightarrow>
             let listItem = append_node listItem children;
                 indent = length ws div LIST_INDENT_SIZE;
                 listItem = (if indent \<noteq> 0 then setIndent listItem indent else listItem);
                 list = createListNode listTag (if listTag = OL then Some (Number (at match 2)) else None)
             in case asListNode previousNode of
                  None \<Rightarrow> Inr (replace_node prev next (ElementNode (append_node (ListNodeE list) [ElementNode listItem])))
                | Some previousList \<Rightarrow>
                    if getTag previousList = listTag
                    then Inr (remove_node (butlast prev @ [ElementNode (append_node (ListNodeE previousList) [ElementNode listItem])]) next)
                    else Inr (replace_node prev next (ElementNode (append_node (ListNodeE list) [ElementNode listItem]))))"

text \<open>
  \<^verbatim>\<open>listExport(listNode, exportChildren, depth)\<close>. The \<^verbatim>\<open>for\<close> loop over the children
  is \<open>listExport_loop\<close>, with the children still to visit and the two variables
  \<^verbatim>\<open>index\<close> and \<^verbatim>\<open>output\<close> of the source.
\<close>

lemma asListItemNode_Some:
  "asListItemNode x = Some item \<Longrightarrow>
     \<exists>ind cs. x = Some (ElementNode (ListItemNode ind cs)) \<and> item = ListItemNode ind cs"
  by (cases x rule: asListItemNode.cases) auto

lemma asListNode_Some: "asListNode x = Some l \<Longrightarrow> x = Some (ElementNode (ListNodeE l))"
  by (cases x rule: asListNode.cases) auto

lemma first_child_list_size:
  assumes "asListItemNode (Some n) = Some item"
    and "asListNode (getFirstChild item) = Some l"
  shows "size l < size n"
proof -
  from assms(1) obtain ind cs
    where n: "n = ElementNode (ListItemNode ind cs)" and item: "item = ListItemNode ind cs"
    by (auto dest: asListItemNode_Some)
  from assms(2) have "getFirstChild item = Some (ElementNode (ListNodeE l))"
    by (rule asListNode_Some)
  with item obtain cs' where "cs = ElementNode (ListNodeE l) # cs'"
    by (cases cs) (auto simp: getFirstChild_def)
  with n show ?thesis by simp
qed

function listExport :: "list_node \<Rightarrow> (element \<Rightarrow> string) \<Rightarrow> nat \<Rightarrow> string"
  and listExport_loop ::
    "list_node \<Rightarrow> (element \<Rightarrow> string) \<Rightarrow> nat \<Rightarrow> node list \<Rightarrow> nat \<Rightarrow> string list \<Rightarrow> string list" where
  "listExport listNode exportChildren depth =
     join [CHR 0x0A]
       (listExport_loop listNode exportChildren depth (getChildren (ListNodeE listNode)) 0 [])"
| "listExport_loop listNode exportChildren depth [] index output = output"
| "listExport_loop listNode exportChildren depth (listItemNode # children) index output =
     (case asListItemNode (Some listItemNode) of
        None \<Rightarrow> listExport_loop listNode exportChildren depth children index output
      | Some item \<Rightarrow>
          (case (if getChildrenSize item = 1 then asListNode (getFirstChild item) else None) of
             Some firstChild \<Rightarrow>
               listExport_loop listNode exportChildren depth children index
                 (output @ [listExport firstChild exportChildren (depth + 1)])
           | None \<Rightarrow>
               let indent = repeat '' '' (Num (depth * LIST_INDENT_SIZE));
                   prefix = (if getTag listNode = UL then ''- ''
                             else String (js_add (getStart listNode) index) @ ''. '')
               in listExport_loop listNode exportChildren depth children (index + 1)
                    (output @ [indent @ prefix @ exportChildren item])))"
  by pat_completeness auto
termination
proof (relation "measure (\<lambda>x. case x of
          Inl (l, ec, d) \<Rightarrow> size l
        | Inr (l, ec, d, xs, i, out) \<Rightarrow> size_list size xs)", goal_cases)
  case 1
  show ?case by simp
next
  case (2 listNode exportChildren depth)
  show ?case by (cases listNode) simp
next
  case 3
  show ?case by simp
next
  case 4
  show ?case by simp
next
  case 5
  then show ?case by (auto split: if_splits dest: first_child_list_size)
next
  case 6
  show ?case by simp
qed





text \<open>\<^verbatim>\<open>HEADING\<close>: \<^verbatim>\<open>export\<close>, and the node that \<^verbatim>\<open>replace\<close> creates from the match.\<close>

definition HEADING_export :: "node \<Rightarrow> (element \<Rightarrow> string) \<Rightarrow> string option" where
  "HEADING_export node exportChildren =
     (case node of
        ElementNode (HeadingNode tag cs) \<Rightarrow>
          let level = Number (Some (drop 1 tag))
          in Some (repeat ''#'' level @ '' '' @ exportChildren (HeadingNode tag cs))
      | _ \<Rightarrow> None)"

definition HEADING_createNode :: "captures \<Rightarrow> error + element" where
  "HEADING_createNode match =
     (case at match 1 of
        None \<Rightarrow> Inl TypeError
      | Some hashes \<Rightarrow>
          let tag = ''h'' @ String (Num (length hashes))
          in Inr (createHeadingNode tag))"

definition HEADING_replace ::
  "node list \<Rightarrow> element \<Rightarrow> node list \<Rightarrow> node list \<Rightarrow> captures \<Rightarrow> error + node list" where
  "HEADING_replace = replaceWithBlock HEADING_createNode"

text \<open>\<^verbatim>\<open>UNORDERED_LIST\<close> and \<^verbatim>\<open>ORDERED_LIST\<close>.\<close>

definition UNORDERED_LIST_export :: "node \<Rightarrow> (element \<Rightarrow> string) \<Rightarrow> string option" where
  "UNORDERED_LIST_export node exportChildren =
     (case asListNode (Some node) of
        Some listNode \<Rightarrow> Some (listExport listNode exportChildren 0)
      | None \<Rightarrow> None)"

definition UNORDERED_LIST_replace ::
  "node list \<Rightarrow> element \<Rightarrow> node list \<Rightarrow> node list \<Rightarrow> captures \<Rightarrow> error + node list" where
  "UNORDERED_LIST_replace = listReplace UL"

definition ORDERED_LIST_export :: "node \<Rightarrow> (element \<Rightarrow> string) \<Rightarrow> string option" where
  "ORDERED_LIST_export node exportChildren =
     (case asListNode (Some node) of
        Some listNode \<Rightarrow> Some (listExport listNode exportChildren 0)
      | None \<Rightarrow> None)"

definition ORDERED_LIST_replace ::
  "node list \<Rightarrow> element \<Rightarrow> node list \<Rightarrow> node list \<Rightarrow> captures \<Rightarrow> error + node list" where
  "ORDERED_LIST_replace = listReplace OL"

text \<open>
  \<^verbatim>\<open>LINK\<close>. \<^verbatim>\<open>export\<close> takes the exporter of children, which it does not call, and the
  exporter of formats. \<^verbatim>\<open>replace\<close> takes the text node among its siblings and the match.
\<close>

definition LINK_export ::
  "node \<Rightarrow> (element \<Rightarrow> string) \<Rightarrow> (text_node \<Rightarrow> string \<Rightarrow> string) \<Rightarrow> string option" where
  "LINK_export node exportChildren exportFormat =
     (case node of
        ElementNode (LinkNode url cs) \<Rightarrow>
          let linkContent = ''['' @ getTextContent node @ ''](''  @ url @ '')'';
              firstChild = getFirstChild (LinkNode url cs)
          in (case asTextNode firstChild of
                Some textNode \<Rightarrow>
                  if getChildrenSize (LinkNode url cs) = 1
                  then Some (exportFormat textNode linkContent)
                  else Some linkContent
              | None \<Rightarrow> Some linkContent)
      | _ \<Rightarrow> None)"

definition LINK_replace ::
  "node list \<Rightarrow> text_node \<Rightarrow> node list \<Rightarrow> captures \<Rightarrow> error + node list" where
  "LINK_replace prev textNode next match =
     (case (at match 1, at match 2) of
        (Some linkText, Some linkUrl) \<Rightarrow>
          let linkNode = createLinkNode linkUrl;
              linkTextNode = createTextNode linkText;
              linkTextNode = setFormat linkTextNode (getFormat textNode);
              linkNode = append_node linkNode [Text linkTextNode]
          in Inr (replace_node prev next (ElementNode linkNode))
      | _ \<Rightarrow> Inl UndefinedCapture)"

section \<open>Facts about the matcher\<close>

text \<open>
  Each regular expression of the file repeats a character class and goes on with a
  character outside that class, so the greedy repetition never has to give characters
  back: the match, if there is one, takes the whole run. The lemmas \<open>exec_\<dots>\<close> give
  the result of \<open>exec\<close> for each of the four regular expressions in closed form.
\<close>

lemma first_some_None: "(\<And>x. x \<in> set xs \<Longrightarrow> f x = None) \<Longrightarrow> first_some f xs = None"
  by (induction xs) auto

lemma first_some_Cons_tail_None:
  "first_some f xs = None \<Longrightarrow> first_some f (x # xs) = f x"
  by (cases "f x") auto

lemma rep_greedy:
  assumes fail: "\<And>j. lo \<le> j \<Longrightarrow> j < m \<Longrightarrow> k (i + j) c = None"
    and m: "m = (case hi of None \<Rightarrow> n | Some h \<Rightarrow> min n h)"
    and n: "n = length (takeWhile (cls_ok a) (drop i s))"
  shows "rx_match (Rep a lo hi) s i c k = (if lo \<le> m then k (i + m) c else None)"
proof -
  have unfold: "rx_match (Rep a lo hi) s i c k = first_some (\<lambda>j. k (i + j) c) (rev [lo..<Suc m])"
    unfolding m n by (simp only: rx_match.simps Let_def)
  show ?thesis
  proof (cases "lo \<le> m")
    case True
    then have "rev [lo..<Suc m] = m # rev [lo..<m]" by simp
    moreover have "first_some (\<lambda>j. k (i + j) c) (rev [lo..<m]) = None"
      by (rule first_some_None) (use fail in auto)
    ultimately have "first_some (\<lambda>j. k (i + j) c) (rev [lo..<Suc m]) = k (i + m) c"
      by (simp only: first_some_Cons_tail_None)
    with True unfold show ?thesis by simp
  next
    case False
    then have "rev [lo..<Suc m] = []" by simp
    with False unfold show ?thesis by (simp only: first_some.simps if_False)
  qed
qed

lemma run_inside:
  assumes "j < length (takeWhile P (drop i s))"
  shows "i + j < length s \<and> P (s ! (i + j))"
proof -
  have le: "length (takeWhile P (drop i s)) \<le> length (drop i s)" by (rule length_takeWhile_le)
  with assms have lt: "i + j < length s" by simp
  have "takeWhile P (drop i s) ! j \<in> set (takeWhile P (drop i s))" using assms by simp
  then have "P (takeWhile P (drop i s) ! j)" by (rule set_takeWhileD[THEN conjunct2])
  then have "P (drop i s ! j)" using assms by (simp add: takeWhile_nth)
  with lt show ?thesis by simp
qed

lemma exec_anchored:
  "exec (Cat Bol r) s =
     rx_match r s 0 (replicate (Suc (groups r)) None) (\<lambda>j c. Some (c[0 := Some (take j s)]))"
proof -
  let ?f = "\<lambda>i. rx_match (Cat Bol r) s i (replicate (Suc (groups (Cat Bol r))) None)
               (\<lambda>j c. Some (c[0 := Some (take (j - i) (drop i s))]))"
  have "[0..<Suc (length s)] = 0 # [Suc 0..<Suc (length s)]" by (simp add: upt_rec)
  moreover have "first_some ?f [Suc 0..<Suc (length s)] = None"
    by (rule first_some_None) auto
  ultimately have "first_some ?f [0..<Suc (length s)] = ?f 0"
    by (simp only: first_some_Cons_tail_None)
  moreover have "?f 0 = rx_match r s 0 (replicate (Suc (groups r)) None) (\<lambda>j c. Some (c[0 := Some (take j s)]))"
    by simp
  ultimately show ?thesis by (simp only: exec_def)
qed

lemma space_not_hash: "is_space c \<Longrightarrow> c \<noteq> CHR ''#''"
  by (auto simp: is_space_def)
lemma space_not_word: "is_space c \<Longrightarrow> \<not> is_word c"
  by (auto simp: is_space_def is_word_def Let_def)
lemma space_not_digit: "is_space c \<Longrightarrow> \<not> is_digit c"
  by (auto simp: is_space_def is_digit_def Let_def)
lemma digit_not_dot: "is_digit c \<Longrightarrow> c \<noteq> CHR ''.''"
  by (auto simp: is_digit_def)


lemma rep_short_run:
  assumes "length (takeWhile (cls_ok a) (drop i s)) < lo"
  shows "rx_match (Rep a lo hi) s i c k = None"
proof -
  let ?n = "length (takeWhile (cls_ok a) (drop i s))"
  let ?m = "case hi of None \<Rightarrow> ?n | Some h \<Rightarrow> min ?n h"
  have "?m \<le> ?n" by (cases hi) auto
  with assms have "rev [lo..<Suc ?m] = []" by simp
  then show ?thesis by (simp only: rx_match.simps Let_def first_some.simps)
qed

lemma run_not_start:
  assumes "i < length s" and "\<not> P (s ! i)"
  shows "length (takeWhile P (drop i s)) = 0"
proof -
  from assms(1) have "drop i s = s ! i # drop (Suc i) s" by (simp add: Cons_nth_drop_Suc)
  with assms(2) show ?thesis by simp
qed

lemma exec_HEADING:
  "exec HEADING_regExp s =
     (let n = length (takeWhile (cls_ok (Lit CHR ''#'')) s)
      in if 1 \<le> n \<and> n \<le> 6 \<and> n < length s \<and> is_space (s ! n)
         then Some [Some (take (Suc n) s), Some (take n s)] else None)"
proof -
  define n where "n = length (takeWhile (cls_ok (Lit CHR ''#'')) (drop 0 s))"
  define m where "m = min n 6"
  define c0 :: captures where "c0 = [None, None]"
  define k where "k = (\<lambda>j c'. rx_match (Chr Space) s j (c'[1 := Some (take (j - 0) (drop 0 s))])
      (\<lambda>j c. Some (c[0 := Some (take j s)])))"
  have fail: "k (0 + j) c0 = None" if "j < m" for j
  proof -
    from that have "j < n" by (simp add: m_def)
    then have "0 + j < length s \<and> cls_ok (Lit CHR ''#'') (s ! (0 + j))"
      unfolding n_def by (rule run_inside)
    then have "\<not> is_space (s ! j)" using space_not_hash by auto
    then show ?thesis by (simp add: k_def)
  qed
  have "exec HEADING_regExp s = rx_match (Rep (Lit CHR ''#'') 1 (Some 6)) s 0 c0 k"
    by (simp only: HEADING_regExp_def exec_anchored rx_match.simps(6,7) k_def) (simp add: c0_def)
  also have "\<dots> = (if 1 \<le> m then k (0 + m) c0 else None)"
  proof (rule rep_greedy[where n = n and m = m])
    show "k (0 + j) c0 = None" if "j < m" for j using that by (rule fail)
    show "m = (case Some 6 of None \<Rightarrow> n | Some h \<Rightarrow> min n h)" by (simp add: m_def)
    show "n = length (takeWhile (cls_ok (Lit CHR ''#'')) (drop 0 s))" by (simp add: n_def)
  qed
  finally have eq: "exec HEADING_regExp s = (if 1 \<le> m then k m c0 else None)" by simp
  have n: "n = length (takeWhile (cls_ok (Lit CHR ''#'')) s)" by (simp add: n_def)
  show ?thesis
  proof (cases "n \<le> 6")
    case True
    then have "m = n" by (simp add: m_def)
    then show ?thesis unfolding eq n[symmetric] Let_def
      by (simp add: k_def c0_def True)
  next
    case False
    then have m6: "m = 6" and "6 < n" by (simp_all add: m_def)
    then have "0 + 6 < length s \<and> cls_ok (Lit CHR ''#'') (s ! (0 + 6))"
      unfolding n_def by (intro run_inside)
    then have "\<not> is_space (s ! 6)" using space_not_hash by auto
    then have "k m c0 = None" by (simp add: k_def m6)
    with False show ?thesis unfolding eq n[symmetric] Let_def by simp
  qed
qed




lemma exec_ORDERED_LIST:
  "exec ORDERED_LIST_regExp s =
     (let n = length (takeWhile is_space s);
          d = length (takeWhile is_digit (drop n s));
          p = n + d
      in if 1 \<le> d \<and> Suc p < length s \<and> s ! p = CHR ''.'' \<and> is_space (s ! Suc p)
         then Some [Some (take (Suc (Suc p)) s), Some (take n s), Some (take d (drop n s))]
         else None)"
proof -
  define n where "n = length (takeWhile (cls_ok Space) (drop 0 s))"
  define d where "d = length (takeWhile (cls_ok Digit) (drop (0 + n) s))"
  define c0 :: captures where "c0 = [None, None, None]"
  define k2 where "k2 = (\<lambda>j c'. rx_match (Cat (Chr (Lit CHR ''.'')) (Chr Space)) s j c'
      (\<lambda>j c. Some (c[0 := Some (take j s)])))"
  define k1 where "k1 = (\<lambda>j c'. rx_match (Cat (Grp 2 (Rep Digit 1 None)) (Cat (Chr (Lit CHR ''.'')) (Chr Space))) s j
      (c'[1 := Some (take (j - 0) (drop 0 s))]) (\<lambda>j c. Some (c[0 := Some (take j s)])))"
  have k1: "k1 i c = rx_match (Rep Digit 1 None) s i (c[1 := Some (take i s)])
      (\<lambda>j c'. k2 j (c'[2 := Some (take (j - i) (drop i s))]))" for i c
    by (simp only: k1_def k2_def rx_match.simps(6,7)) simp
  have fail1: "k1 (0 + j) c0 = None" if "j < n" for j
  proof -
    from that have "0 + j < length s \<and> cls_ok Space (s ! (0 + j))"
      unfolding n_def by (rule run_inside)
    then have "j < length s" and "\<not> cls_ok Digit (s ! j)" using space_not_digit by auto
    then have "length (takeWhile (cls_ok Digit) (drop j s)) = 0" by (rule run_not_start)
    then have "length (takeWhile (cls_ok Digit) (drop j s)) < 1" by simp
    then show ?thesis unfolding k1 by (simp only: rep_short_run add_0)
  qed
  have fail2: "k2 (n + j) c = None" if "j < d" for j c
  proof -
    from that have "0 + n + j < length s \<and> cls_ok Digit (s ! (0 + n + j))"
      unfolding d_def by (rule run_inside)
    then have "s ! (n + j) \<noteq> CHR ''.''" using digit_not_dot by auto
    then show ?thesis by (simp add: k2_def)
  qed
  have "exec ORDERED_LIST_regExp s = rx_match (Rep Space 0 None) s 0 c0 k1"
    by (simp only: ORDERED_LIST_regExp_def exec_anchored rx_match.simps(6,7) k1_def) (simp add: c0_def)
  also have "\<dots> = (if 0 \<le> n then k1 (0 + n) c0 else None)"
  proof (rule rep_greedy[where n = n and m = n])
    show "k1 (0 + j) c0 = None" if "j < n" for j using that by (rule fail1)
    show "n = (case None of None \<Rightarrow> n | Some h \<Rightarrow> min n h)" by simp
    show "n = length (takeWhile (cls_ok Space) (drop 0 s))" by (simp add: n_def)
  qed
  also have "\<dots> = rx_match (Rep Digit 1 None) s n (c0[1 := Some (take n s)])
      (\<lambda>j c'. k2 j (c'[2 := Some (take (j - n) (drop n s))]))"
    by (simp add: k1)
  also have "\<dots> = (if 1 \<le> d then k2 (n + d) (c0[1 := Some (take n s), 2 := Some (take (n + d - n) (drop n s))]) else None)"
  proof (rule rep_greedy[where n = d and m = d])
    show "k2 (n + j) (c0[1 := Some (take n s), 2 := Some (take (n + j - n) (drop n s))]) = None"
      if "j < d" for j using that by (rule fail2)
    show "d = (case None of None \<Rightarrow> d | Some h \<Rightarrow> min d h)" by simp
    show "d = length (takeWhile (cls_ok Digit) (drop n s))" by (simp add: d_def)
  qed
  finally have eq: "exec ORDERED_LIST_regExp s =
      (if 1 \<le> d then k2 (n + d) (c0[1 := Some (take n s), 2 := Some (take d (drop n s))]) else None)"
    by simp
  have n: "n = length (takeWhile is_space s)"
    by (simp add: n_def cong: takeWhile_cong)
  have d: "d = length (takeWhile is_digit (drop n s))"
    by (simp add: d_def cong: takeWhile_cong)
  note c0 = c0_def
  show ?thesis unfolding eq n[symmetric] Let_def d[symmetric]
    by (auto simp: k2_def c0 numeral_2_eq_2)
qed


lemma take3_iff:
  "(take 3 s = [a, b, c]) =
     (Suc (Suc 0) < length s \<and> s ! 0 = a \<and> s ! Suc 0 = b \<and> s ! Suc (Suc 0) = c)"
proof (cases s)
  case Nil
  then show ?thesis by simp
next
  case (Cons x xs)
  note s = this
  show ?thesis
  proof (cases xs)
    case Nil
    with s show ?thesis by simp
  next
    case (Cons y ys)
    with s show ?thesis by (cases ys) (auto simp: numeral_3_eq_3)
  qed
qed

lemma chr_step:
  "rx_match (Cat (Chr a) r) s i c k =
     (if i < length s \<and> cls_ok a (s ! i) then rx_match r s (Suc i) c k else None)"
  by (simp only: rx_match.simps(3,7))

lemma exec_CODE:
  "exec CODE_regExp s =
     (if take 3 s = [CHR 0x60, CHR 0x60, CHR 0x60]
      then let n = length (takeWhile is_word (drop 3 s))
           in if 1 \<le> n \<and> n \<le> 10 \<and> 3 + n < length s \<and> is_space (s ! (3 + n))
              then Some [Some (take (4 + n) s), Some (take n (drop 3 s))]
              else if 3 < length s \<and> is_space (s ! 3) then Some [Some (take 4 s), None]
              else None
      else None)"
proof -
  define n where "n = length (takeWhile (cls_ok Word) (drop 3 s))"
  define m where "m = min n 10"
  define c0 :: captures where "c0 = [None, None]"
  define kS where "kS = (\<lambda>j c'. rx_match (Chr Space) s j c' (\<lambda>j c. Some (c[0 := Some (take j s)])))"
  define k where "k = (\<lambda>j c'. kS j (c'[1 := Some (take (j - 3) (drop 3 s))]))"
  have fail: "k (3 + j) c0 = None" if "j < m" for j
  proof -
    from that have "j < n" by (simp add: m_def)
    then have "3 + j < length s \<and> cls_ok Word (s ! (3 + j))"
      unfolding n_def by (rule run_inside)
    then have "\<not> is_space (s ! (3 + j))" using space_not_word by auto
    then show ?thesis by (simp add: k_def kS_def)
  qed
  have rep: "rx_match (Rep Word 1 (Some 10)) s 3 c0 k = (if 1 \<le> m then k (3 + m) c0 else None)"
  proof (rule rep_greedy[where n = n and m = m])
    show "k (3 + j) c0 = None" if "j < m" for j using that by (rule fail)
    show "m = (case Some 10 of None \<Rightarrow> n | Some h \<Rightarrow> min n h)" by (simp add: m_def)
    show "n = length (takeWhile (cls_ok Word) (drop 3 s))" by (simp add: n_def)
  qed
  have opt: "rx_match (Cat (Opt (Grp 1 (Rep Word 1 (Some 10)))) (Chr Space)) s 3 c0
        (\<lambda>j c. Some (c[0 := Some (take j s)])) =
      (case (if 1 \<le> m then k (3 + m) c0 else None) of Some x \<Rightarrow> Some x | None \<Rightarrow> kS 3 c0)"
    unfolding rep[symmetric] by (simp only: rx_match.simps(5,6,7) k_def kS_def)
  have three: "Suc (Suc (Suc 0)) = 3" by simp
  have "exec CODE_regExp s =
      (if 0 < length s \<and> s ! 0 = CHR 0x60
       then if Suc 0 < length s \<and> s ! Suc 0 = CHR 0x60
         then if Suc (Suc 0) < length s \<and> s ! Suc (Suc 0) = CHR 0x60
           then rx_match (Cat (Opt (Grp 1 (Rep Word 1 (Some 10)))) (Chr Space)) s 3 c0
              (\<lambda>j c. Some (c[0 := Some (take j s)]))
           else None else None else None)"
    by (simp only: CODE_regExp_def exec_anchored chr_step cls_ok.simps three) (simp add: c0_def)
  then have pre: "exec CODE_regExp s =
      (if take 3 s = [CHR 0x60, CHR 0x60, CHR 0x60]
       then rx_match (Cat (Opt (Grp 1 (Rep Word 1 (Some 10)))) (Chr Space)) s 3 c0
              (\<lambda>j c. Some (c[0 := Some (take j s)]))
       else None)"
    unfolding take3_iff by auto
  have n: "n = length (takeWhile is_word (drop 3 s))"
    by (simp add: n_def cong: takeWhile_cong)
  have first_word: "\<not> is_space (s ! 3)" if "1 \<le> n"
  proof -
    from that have "0 < n" by simp
    then have "3 + 0 < length s \<and> cls_ok Word (s ! (3 + 0))"
      unfolding n_def by (rule run_inside)
    then show ?thesis using space_not_word by auto
  qed
  note c0 = c0_def
  show ?thesis
  proof (cases "n \<le> 10")
    case True
    then have m: "m = n" by (simp add: m_def)
    show ?thesis unfolding pre opt m n[symmetric] Let_def
      using first_word True by (auto simp: k_def kS_def c0)
  next
    case False
    then have m10: "m = 10" and "10 < n" by (simp_all add: m_def)
    then have "3 + 10 < length s \<and> cls_ok Word (s ! (3 + 10))"
      unfolding n_def by (intro run_inside)
    then have "\<not> is_space (s ! 13)" using space_not_word by auto
    then have "k (3 + m) c0 = None" by (simp add: k_def kS_def m10)
    moreover from False have "1 \<le> n" by simp
    ultimately show ?thesis unfolding pre opt n[symmetric] Let_def
      using first_word False by (auto simp: kS_def m10)
  qed
qed

lemma takeWhile_run:
  assumes "list_all P xs" and "\<not> P y"
  shows "takeWhile P (xs @ y # ys) = xs"
  using assms by (induction xs) auto

lemma exec_CODE_shape:
  assumes "list_all is_word tag" and "length tag \<le> 10" and "is_space sp"
  shows "exec CODE_regExp (fence @ tag @ sp # rest) =
           Some [Some (fence @ tag @ [sp]), if tag = [] then None else Some tag]"
proof -
  let ?s = "fence @ tag @ sp # rest"
  have t3: "take 3 ?s = [CHR 0x60, CHR 0x60, CHR 0x60]" and d3: "drop 3 ?s = tag @ sp # rest"
    by (simp_all add: fence_def)
  have "\<not> is_word sp" using assms(3) by (rule space_not_word)
  with assms(1) have run: "takeWhile is_word (tag @ sp # rest) = tag" by (rule takeWhile_run)
  have at_n: "?s ! (3 + length tag) = sp" by (simp add: fence_def nth_append)
  have "length (fence @ tag @ [sp]) = 4 + length tag" by (simp add: fence_def)
  then have tk: "take (4 + length tag) ?s = fence @ tag @ [sp]"
    by (metis append.assoc append_Cons append_Nil append_eq_conv_conj)
  show ?thesis
  proof (cases "tag = []")
    case True
    then show ?thesis using assms(3) space_not_word[OF assms(3)] by (simp add: exec_CODE fence_def)
  next
    case False
    then have "1 \<le> length tag" by (cases tag) auto
    then show ?thesis using False assms(2,3) at_n tk
      by (simp only: exec_CODE t3 d3 run Let_def) (simp add: fence_def)
  qed
qed


section \<open>Facts about numbers and about \<open>listReplace\<close>\<close>

text \<open>The decimal spelling of a number reads back as the number.\<close>

lemma dec_snoc: "dec (ds @ [c]) = 10 * dec ds + digit_val c"
  by (simp add: dec_def)

lemma digit_char: "d < 10 \<Longrightarrow> is_digit (char_of (48 + d)) \<and> digit_val (char_of (48 + d)) = d"
  by (simp add: is_digit_def digit_val_def Let_def)

lemma digits_of_digits: "digits_of n \<noteq> [] \<and> list_all is_digit (digits_of n) \<and> dec (digits_of n) = n"
proof (induction n rule: digits_of.induct)
  case (1 n)
  show ?case
  proof (cases "n < 10")
    case True
    then show ?thesis by (simp add: digits_of.simps[of n] digit_char dec_def)
  next
    case False
    have "n mod 10 < 10" by simp
    then have d: "is_digit (char_of (48 + n mod 10))" "digit_val (char_of (48 + n mod 10)) = n mod 10"
      using digit_char by blast+
    from False 1 have ih: "list_all is_digit (digits_of (n div 10))" "dec (digits_of (n div 10)) = n div 10"
      by simp_all
    from False have "digits_of n = digits_of (n div 10) @ [char_of (48 + n mod 10)]"
      by (simp add: digits_of.simps[of n])
    with d ih show ?thesis by (simp add: dec_snoc)
  qed
qed

lemma Number_digits_of: "Number (Some (digits_of n)) = Num n"
  using digits_of_digits[of n] by (simp add: Number_def)

lemma repeat_char: "repeat [c] (Num n) = replicate n c"
  by (induction n) auto

lemma takeWhile_replicate_run:
  assumes "\<not> P y" and "P x"
  shows "takeWhile P (replicate n x @ y # ys) = replicate n x"
  using assms by (induction n) auto

text \<open>The tree that \<open>listReplace\<close> returns, and the first capture of the two list patterns.\<close>

lemma listReplace_result:
  assumes "at m 1 = Some ws"
  shows "listReplace listTag prev parentNode next children m =
    Inr (case asListNode (getPreviousSibling prev) of
           Some l \<Rightarrow>
             if getTag l = listTag
             then butlast prev @ [ElementNode (append_node (ListNodeE l)
                    [ElementNode (ListItemNode (length ws div LIST_INDENT_SIZE) children)])] @ next
             else prev @ [ElementNode (ListNodeE (ListNode listTag
                    (if listTag = OL then Number (at m 2) else Num 1)
                    [ElementNode (ListItemNode (length ws div LIST_INDENT_SIZE) children)]))] @ next
         | None \<Rightarrow>
             prev @ [ElementNode (ListNodeE (ListNode listTag
                    (if listTag = OL then Number (at m 2) else Num 1)
                    [ElementNode (ListItemNode (length ws div LIST_INDENT_SIZE) children)]))] @ next)"
  using assms
  by (simp add: listReplace_def Let_def createListItemNode_def createListNode_def
      replace_node_def remove_node_def split: option.splits)





text \<open>The decimal spelling read back, and the match of an ordered-list line.\<close>

lemma digit_char_back: "is_digit c \<Longrightarrow> char_of (48 + digit_val c) = c \<and> digit_val c < 10"
proof -
  assume "is_digit c"
  then have "48 \<le> (of_char c :: nat)" and "(of_char c :: nat) \<le> 57"
    by (simp_all add: is_digit_def Let_def)
  then have "48 + digit_val c = (of_char c :: nat)" and "digit_val c < 10"
    by (simp_all add: digit_val_def)
  then show ?thesis by simp
qed

lemma digits_of_dec:
  assumes "ds \<noteq> []" and "list_all is_digit ds" and "hd ds \<noteq> CHR ''0''"
  shows "digits_of (dec ds) = ds"
  using assms
proof (induction ds rule: rev_induct)
  case Nil
  then show ?case by simp
next
  case (snoc c xs)
  from snoc.prems have c: "is_digit c" by simp
  then have chr: "char_of (48 + digit_val c) = c" and lt: "digit_val c < 10"
    using digit_char_back by blast+
  show ?case
  proof (cases "xs = []")
    case True
    then have "dec (xs @ [c]) = digit_val c" by (simp add: dec_def)
    with lt chr True show ?thesis by (simp add: digits_of.simps[of "digit_val c"])
  next
    case False
    with snoc.prems have "list_all is_digit xs" and hd: "hd xs \<noteq> CHR ''0''" by simp_all
    with False snoc.IH have ih: "digits_of (dec xs) = xs" by simp
    have "dec xs \<noteq> 0"
    proof
      assume "dec xs = 0"
      with ih have "xs = digits_of 0" by simp
      moreover have "digits_of 0 = ''0''" by code_simp
      ultimately have "xs = ''0''" by simp
      with hd show False by simp
    qed
    then have ge: "\<not> 10 * dec xs + digit_val c < 10" by simp
    have "(10 * dec xs + digit_val c) div 10 = dec xs" and "(10 * dec xs + digit_val c) mod 10 = digit_val c"
      using lt by simp_all
    then have "digits_of (10 * dec xs + digit_val c) = digits_of (dec xs) @ [char_of (48 + digit_val c)]"
      using ge by (simp add: digits_of.simps[of "10 * dec xs + digit_val c"])
    with ih chr show ?thesis by (simp add: dec_snoc)
  qed
qed

lemma exec_ORDERED_LIST_line:
  assumes "ds \<noteq> []" and "list_all is_digit ds"
  shows "exec ORDERED_LIST_regExp (ds @ ''. '' @ rest) = Some [Some (ds @ ''. ''), Some [], Some ds]"
proof -
  let ?s = "ds @ ''. '' @ rest"
  from assms obtain d ds' where ds: "ds = d # ds'" and d: "is_digit d" by (cases ds) auto
  then have "\<not> is_space d" using space_not_digit by blast
  then have ws: "takeWhile is_space ?s = []" by (simp add: ds)
  have "\<not> is_digit CHR ''.''" by (simp add: is_digit_def)
  with assms(2) have run: "takeWhile is_digit (ds @ CHR ''.'' # CHR '' '' # rest) = ds"
    by (rule takeWhile_run)
  have sp: "is_space CHR '' ''" by (simp add: is_space_def)
  have n1: "?s ! length ds = CHR ''.''" and n2: "?s ! Suc (length ds) = CHR '' ''"
    by (simp_all add: nth_append)
  have "length (ds @ ''. '') = Suc (Suc (length ds))" by simp
  then have tk: "take (Suc (Suc (length ds))) ?s = ds @ ''. ''"
    by (metis append.assoc append_eq_conv_conj)
  from assms(1) have len: "1 \<le> length ds" by (cases ds) auto
  show ?thesis
    using len n1 n2 sp tk
    by (simp only: exec_ORDERED_LIST ws Let_def list.size drop_0 add_0) (simp add: run)
qed



lemma js_add_0: "js_add start 0 = start"
  by (cases start) simp_all





section \<open>Properties\<close>

subsection \<open>Headings\<close>

text \<open>
  C8. A line that begins with \<open>n\<close> characters \<^verbatim>\<open>#\<close>, \<open>1 \<le> n \<le> 6\<close>, followed by a
  space (or any other whitespace character) matches the regular expression of
  \<^verbatim>\<open>HEADING\<close> with the \<open>n\<close> characters as first capture; \<^verbatim>\<open>replace\<close> on that match
  puts a heading node of tag \<^verbatim>\<open>h\<close>\<open>n\<close> with the children in the place of the parent
  node; and \<^verbatim>\<open>export\<close> of a heading node of tag \<^verbatim>\<open>h\<close>\<open>n\<close> is \<open>n\<close> characters \<^verbatim>\<open>#\<close>, a
  space and the export of the children.
\<close>

theorem HEADING_level:
  assumes "1 \<le> n" and "n \<le> 6" and "is_space sp"
  shows "exec HEADING_regExp (replicate n CHR ''#'' @ sp # rest)
           = Some [Some (replicate n CHR ''#'' @ [sp]), Some (replicate n CHR ''#'')]
     \<and> HEADING_replace prev parentNode next children
           [Some (replicate n CHR ''#'' @ [sp]), Some (replicate n CHR ''#'')]
           = Inr (prev @ [ElementNode (HeadingNode (''h'' @ digits_of n) children)] @ next)
     \<and> HEADING_export (ElementNode (HeadingNode (''h'' @ digits_of n) cs)) exportChildren
           = Some (replicate n CHR ''#'' @ '' '' @ exportChildren (HeadingNode (''h'' @ digits_of n) cs))"
proof (intro conjI)
  let ?s = "replicate n CHR ''#'' @ sp # rest"
  have "\<not> cls_ok (Lit CHR ''#'') sp" using assms(3) space_not_hash by simp
  then have run: "takeWhile (cls_ok (Lit CHR ''#'')) ?s = replicate n CHR ''#''"
    by (rule takeWhile_replicate_run) simp
  have nth: "?s ! n = sp" by (simp add: nth_append)
  have "take (Suc n) ?s = replicate n CHR ''#'' @ [sp]" and "take n ?s = replicate n CHR ''#''"
    by simp_all
  with assms nth show "exec HEADING_regExp ?s
      = Some [Some (replicate n CHR ''#'' @ [sp]), Some (replicate n CHR ''#'')]"
    by (simp only: exec_HEADING run Let_def) simp
next
  show "HEADING_replace prev parentNode next children
           [Some (replicate n CHR ''#'' @ [sp]), Some (replicate n CHR ''#'')]
           = Inr (prev @ [ElementNode (HeadingNode (''h'' @ digits_of n) children)] @ next)"
    by (simp add: HEADING_replace_def replaceWithBlock_def HEADING_createNode_def at_def
        createHeadingNode_def replace_node_def)
next
  show "HEADING_export (ElementNode (HeadingNode (''h'' @ digits_of n) cs)) exportChildren
           = Some (replicate n CHR ''#'' @ '' '' @ exportChildren (HeadingNode (''h'' @ digits_of n) cs))"
    by (simp add: HEADING_export_def Number_digits_of repeat_char)
qed

theorem HEADING_level_witness:
  "exec HEADING_regExp ''## Title'' = Some [Some ''## '', Some ''##'']
   \<and> HEADING_replace [] (ParagraphNode [Text (TextNode ''Title'' 0)]) [] [Text (TextNode ''Title'' 0)]
        [Some ''## '', Some ''##'']
        = Inr [ElementNode (HeadingNode ''h2'' [Text (TextNode ''Title'' 0)])]
   \<and> HEADING_export (ElementNode (HeadingNode ''h2'' [Text (TextNode ''Title'' 0)])) getTextContentE
        = Some ''## Title''"
proof -
  have sp: "is_space CHR '' ''" by (simp add: is_space_def)
  have n: "1 \<le> (2::nat)" "(2::nat) \<le> 6" by simp_all
  have d: "digits_of 2 = ''2''" by code_simp
  have r: "replicate 2 CHR ''#'' = ''##''" by (simp add: numeral_2_eq_2)
  note t = HEADING_level[OF n sp, of "''Title''" "[]" "ParagraphNode [Text (TextNode ''Title'' 0)]" "[]"
        "[Text (TextNode ''Title'' 0)]" "[Text (TextNode ''Title'' 0)]" getTextContentE]
  from t show ?thesis unfolding d r by simp
qed

text \<open>
  C9. The line of three \<^verbatim>\<open>#\<close> and a space, with nothing after it, matches; \<^verbatim>\<open>replace\<close>
  gives a heading node of tag \<^verbatim>\<open>h3\<close> that holds the children it was given and nothing
  else; \<^verbatim>\<open>export\<close> of that node is the marker followed by the export of the children,
  which for a heading without children, or with one empty text node, is the marker alone.
\<close>

theorem HEADING_marker_only:
  "exec HEADING_regExp ''### '' = Some [Some ''### '', Some ''###'']
   \<and> HEADING_replace prev parentNode next children [Some ''### '', Some ''###'']
        = Inr (prev @ [ElementNode (HeadingNode ''h3'' children)] @ next)
   \<and> HEADING_export (ElementNode (HeadingNode ''h3'' children)) exportChildren
        = Some (''### '' @ exportChildren (HeadingNode ''h3'' children))
   \<and> HEADING_export (ElementNode (HeadingNode ''h3'' [])) getTextContentE = Some ''### ''
   \<and> HEADING_export (ElementNode (HeadingNode ''h3'' [Text (TextNode [] 0)])) getTextContentE
        = Some ''### ''"
proof -
  have sp: "is_space CHR '' ''" by (simp add: is_space_def)
  have d: "digits_of (length ''###'') = ''3''" by code_simp
  have "Number (Some (digits_of (length ''###''))) = Num (length ''###'')" by (rule Number_digits_of)
  then have n: "Number (Some ''3'') = Num 3" unfolding d by simp
  have e: "exec HEADING_regExp ''### '' = Some [Some ''### '', Some ''###'']"
    by (simp add: exec_HEADING sp)
  have "HEADING_replace prev parentNode next children [Some ''### '', Some ''###'']
        = Inr (prev @ [ElementNode (HeadingNode (''h'' @ digits_of (length ''###'')) children)] @ next)"
    by (simp add: HEADING_replace_def replaceWithBlock_def HEADING_createNode_def at_def
        createHeadingNode_def replace_node_def)
  then have r: "HEADING_replace prev parentNode next children [Some ''### '', Some ''###'']
        = Inr (prev @ [ElementNode (HeadingNode ''h3'' children)] @ next)"
    unfolding d by simp
  have x: "HEADING_export (ElementNode (HeadingNode ''h3'' cs)) f = Some (''### '' @ f (HeadingNode ''h3'' cs))" for cs f
    by (simp add: HEADING_export_def n numeral_3_eq_3)
  show ?thesis by (simp add: e r x)
qed


subsection \<open>Code fences\<close>

text \<open>
  C4, as the code has it. A line matches the regular expression of \<^verbatim>\<open>CODE\<close> exactly
  when it begins with three backticks, then a language tag of at most 10 word characters
  (none is allowed), then one whitespace character. The whitespace character is required.
\<close>

theorem CODE_regExp_matches_iff:
  "(exec CODE_regExp line \<noteq> None) =
     (\<exists>tag sp rest. line = fence @ tag @ sp # rest
         \<and> list_all is_word tag \<and> length tag \<le> 10 \<and> is_space sp)"
proof
  assume m: "exec CODE_regExp line \<noteq> None"
  let ?n = "length (takeWhile is_word (drop 3 line))"
  from m have t3: "take 3 line = fence"
    by (simp add: exec_CODE fence_def split: if_splits)
  then have line: "line = fence @ drop 3 line" by (metis append_take_drop_id)
  have len3: "length fence = 3" by (simp add: fence_def)
  show "\<exists>tag sp rest. line = fence @ tag @ sp # rest
         \<and> list_all is_word tag \<and> length tag \<le> 10 \<and> is_space sp"
  proof (cases "1 \<le> ?n \<and> ?n \<le> 10 \<and> 3 + ?n < length line \<and> is_space (line ! (3 + ?n))")
    case True
    let ?d = "drop 3 line"
    from True have n: "?n < length ?d" by (simp add: less_diff_conv add.commute)
    have "?d = take ?n ?d @ ?d ! ?n # drop (Suc ?n) ?d" using n by (rule id_take_nth_drop)
    moreover have "take ?n ?d = takeWhile is_word ?d" by (simp add: takeWhile_eq_take[symmetric])
    moreover have "?d ! ?n = line ! (3 + ?n)" using True by simp
    ultimately have "?d = takeWhile is_word ?d @ line ! (3 + ?n) # drop (Suc ?n) ?d" by simp
    with line have "line = fence @ takeWhile is_word ?d @ line ! (3 + ?n) # drop (Suc ?n) ?d" by simp
    moreover have "list_all is_word (takeWhile is_word ?d)"
      by (simp add: list_all_iff) (meson set_takeWhileD)
    ultimately show ?thesis using True by blast
  next
    case False
    with m t3 have sp: "3 < length line \<and> is_space (line ! 3)"
      by (simp add: exec_CODE fence_def Let_def split: if_splits)
    then have "line ! 3 # drop (Suc 3) line = drop 3 line" by (intro Cons_nth_drop_Suc) simp
    then have "drop 3 line = line ! 3 # drop 4 line" by simp
    with line have "line = fence @ [] @ line ! 3 # drop 4 line" by simp
    moreover have "list_all is_word []" and "length ([] :: string) \<le> 10" by simp_all
    ultimately show ?thesis using sp by blast
  qed
next
  assume "\<exists>tag sp rest. line = fence @ tag @ sp # rest
         \<and> list_all is_word tag \<and> length tag \<le> 10 \<and> is_space sp"
  then show "exec CODE_regExp line \<noteq> None" by (auto simp: exec_CODE_shape)
qed

text \<open>
  C4, as stated, fails: the line of three backticks and the tag \<^verbatim>\<open>js\<close> begins with a
  triple backtick followed by a language tag of two word characters, and the line of
  three backticks alone has no tag, and neither matches, since no whitespace follows.
\<close>

theorem CODE_regExp_needs_space:
  "list_all is_word ''js'' \<and> 1 \<le> length ''js'' \<and> length ''js'' \<le> 10
   \<and> exec CODE_regExp (fence @ ''js'') = None
   \<and> exec CODE_regExp fence = None"
  by (simp add: exec_CODE fence_def is_word_def is_space_def)

subsection \<open>Links\<close>

text \<open>
  C5. For a link node, \<^verbatim>\<open>LINK.export\<close> builds the bracketed form: an opening bracket,
  the text content of the node, \<^verbatim>\<open>](\<close>, the URL and a closing parenthesis. A link
  whose only child is a text node hands that child and the bracketed form to the format
  exporter and returns what it gives. A link with no child, with one child that is an
  element, or with two or more children returns the bracketed form as it is.
\<close>

theorem LINK_export_bracketed:
  "LINK_export (ElementNode (LinkNode url [Text t])) exportChildren exportFormat
     = Some (exportFormat t
         (''['' @ getTextContent (ElementNode (LinkNode url [Text t])) @ '']('' @ url @ '')''))
   \<and> LINK_export (ElementNode (LinkNode url [])) exportChildren exportFormat
     = Some (''['' @ getTextContent (ElementNode (LinkNode url [])) @ '']('' @ url @ '')'')
   \<and> LINK_export (ElementNode (LinkNode url [ElementNode e])) exportChildren exportFormat
     = Some (''['' @ getTextContent (ElementNode (LinkNode url [ElementNode e])) @ '']('' @ url @ '')'')
   \<and> LINK_export (ElementNode (LinkNode url (c # d # cs))) exportChildren exportFormat
     = Some (''['' @ getTextContent (ElementNode (LinkNode url (c # d # cs))) @ '']('' @ url @ '')'')"
  by (simp add: LINK_export_def getFirstChild_def getChildrenSize_def Let_def split: option.splits)

text \<open>
  C6. \<^verbatim>\<open>LINK.replace\<close> on a text node and a match with both captures puts, in the place
  of the text node, a link node whose URL is the second capture and whose only child is a
  text node with the first capture as text and the format flags of the replaced node.
\<close>

theorem LINK_replace_copies_format:
  "LINK_replace prev (TextNode text format) next (whole # Some linkText # Some linkUrl # rest)
     = Inr (prev @ [ElementNode (LinkNode linkUrl [Text (TextNode linkText format)])] @ next)"
  by (simp add: LINK_replace_def at_def createLinkNode_def createTextNode_def replace_node_def)

subsection \<open>Lists\<close>







text \<open>
  C2. An ordered-list line is a number \<open>ds1\<close> in digits, a dot, a space and a text. For
  two such lines in a row, the first \<^verbatim>\<open>replace\<close> creates an ordered list whose start
  value is the number of the first line, the second \<^verbatim>\<open>replace\<close> appends its item to that
  list, so that there is a single list, and \<^verbatim>\<open>export\<close> writes the start value as the
  marker of the first item and the start value plus one as the marker of the second,
  whatever number the second line had. Written without leading zeros, the number of the
  first line comes back as it was. The start value is taken below \<open>2 ^ 53\<close>, where the
  numbers of JavaScript are exact.
\<close>

theorem ordered_list_start_round_trip:
  assumes "ds1 \<noteq> []" and "list_all is_digit ds1" and "ds2 \<noteq> []" and "list_all is_digit ds2"
    and "dec ds1 + 1 < 2 ^ 53"
  shows "exec ORDERED_LIST_regExp (ds1 @ ''. '' @ a) = Some [Some (ds1 @ ''. ''), Some [], Some ds1]
    \<and> exec ORDERED_LIST_regExp (ds2 @ ''. '' @ b) = Some [Some (ds2 @ ''. ''), Some [], Some ds2]
    \<and> ORDERED_LIST_replace [] (ParagraphNode [Text (TextNode a 0)]) [] [Text (TextNode a 0)]
          [Some (ds1 @ ''. ''), Some [], Some ds1]
        = Inr [ElementNode (ListNodeE (ListNode OL (Num (dec ds1))
                 [ElementNode (ListItemNode 0 [Text (TextNode a 0)])]))]
    \<and> ORDERED_LIST_replace
          [ElementNode (ListNodeE (ListNode OL (Num (dec ds1))
                 [ElementNode (ListItemNode 0 [Text (TextNode a 0)])]))]
          (ParagraphNode [Text (TextNode b 0)]) [] [Text (TextNode b 0)]
          [Some (ds2 @ ''. ''), Some [], Some ds2]
        = Inr [ElementNode (ListNodeE (ListNode OL (Num (dec ds1))
                 [ElementNode (ListItemNode 0 [Text (TextNode a 0)]),
                  ElementNode (ListItemNode 0 [Text (TextNode b 0)])]))]
    \<and> ORDERED_LIST_export
          (ElementNode (ListNodeE (ListNode OL (Num (dec ds1))
                 [ElementNode (ListItemNode 0 [Text (TextNode a 0)]),
                  ElementNode (ListItemNode 0 [Text (TextNode b 0)])])))
          exportChildren
        = Some (digits_of (dec ds1) @ ''. '' @ exportChildren (ListItemNode 0 [Text (TextNode a 0)])
                @ [CHR 0x0A]
                @ digits_of (dec ds1 + 1) @ ''. '' @ exportChildren (ListItemNode 0 [Text (TextNode b 0)]))
    \<and> (hd ds1 \<noteq> CHR ''0'' \<longrightarrow> digits_of (dec ds1) = ds1)"
proof (intro conjI impI)
  show "exec ORDERED_LIST_regExp (ds1 @ ''. '' @ a) = Some [Some (ds1 @ ''. ''), Some [], Some ds1]"
    using assms(1,2) by (rule exec_ORDERED_LIST_line)
  show "exec ORDERED_LIST_regExp (ds2 @ ''. '' @ b) = Some [Some (ds2 @ ''. ''), Some [], Some ds2]"
    using assms(3,4) by (rule exec_ORDERED_LIST_line)
  have n: "Number (Some ds1) = Num (dec ds1)" using assms(1,2) by (simp add: Number_def)
  have c1: "at [Some (ds1 @ ''. ''), Some [], Some ds1] 1 = Some []" by (simp add: at_def)
  have c2: "at [Some (ds2 @ ''. ''), Some [], Some ds2] 1 = Some []" by (simp add: at_def)
  show "ORDERED_LIST_replace [] (ParagraphNode [Text (TextNode a 0)]) [] [Text (TextNode a 0)]
          [Some (ds1 @ ''. ''), Some [], Some ds1]
        = Inr [ElementNode (ListNodeE (ListNode OL (Num (dec ds1))
                 [ElementNode (ListItemNode 0 [Text (TextNode a 0)])]))]"
    unfolding ORDERED_LIST_replace_def listReplace_result[OF c1]
    by (simp add: getPreviousSibling_def at_def n)
  show "ORDERED_LIST_replace
          [ElementNode (ListNodeE (ListNode OL (Num (dec ds1))
                 [ElementNode (ListItemNode 0 [Text (TextNode a 0)])]))]
          (ParagraphNode [Text (TextNode b 0)]) [] [Text (TextNode b 0)]
          [Some (ds2 @ ''. ''), Some [], Some ds2]
        = Inr [ElementNode (ListNodeE (ListNode OL (Num (dec ds1))
                 [ElementNode (ListItemNode 0 [Text (TextNode a 0)]),
                  ElementNode (ListItemNode 0 [Text (TextNode b 0)])]))]"
    unfolding ORDERED_LIST_replace_def listReplace_result[OF c2]
    by (simp add: getPreviousSibling_def)
  show "ORDERED_LIST_export
          (ElementNode (ListNodeE (ListNode OL (Num (dec ds1))
                 [ElementNode (ListItemNode 0 [Text (TextNode a 0)]),
                  ElementNode (ListItemNode 0 [Text (TextNode b 0)])])))
          exportChildren
        = Some (digits_of (dec ds1) @ ''. '' @ exportChildren (ListItemNode 0 [Text (TextNode a 0)])
                @ [CHR 0x0A]
                @ digits_of (dec ds1 + 1) @ ''. '' @ exportChildren (ListItemNode 0 [Text (TextNode b 0)]))"
    by (simp add: ORDERED_LIST_export_def getChildrenSize_def getFirstChild_def Let_def)
next
  assume "hd ds1 \<noteq> CHR ''0''"
  with assms(1,2) show "digits_of (dec ds1) = ds1" by (rule digits_of_dec)
qed

theorem ordered_list_start_round_trip_witness:
  "exec ORDERED_LIST_regExp ''5. a'' = Some [Some ''5. '', Some [], Some ''5'']
    \<and> exec ORDERED_LIST_regExp ''6. b'' = Some [Some ''6. '', Some [], Some ''6'']
    \<and> ORDERED_LIST_replace [] (ParagraphNode [Text (TextNode ''a'' 0)]) [] [Text (TextNode ''a'' 0)]
          [Some ''5. '', Some [], Some ''5'']
        = Inr [ElementNode (ListNodeE (ListNode OL (Num 5)
                 [ElementNode (ListItemNode 0 [Text (TextNode ''a'' 0)])]))]
    \<and> ORDERED_LIST_replace
          [ElementNode (ListNodeE (ListNode OL (Num 5)
                 [ElementNode (ListItemNode 0 [Text (TextNode ''a'' 0)])]))]
          (ParagraphNode [Text (TextNode ''b'' 0)]) [] [Text (TextNode ''b'' 0)]
          [Some ''6. '', Some [], Some ''6'']
        = Inr [ElementNode (ListNodeE (ListNode OL (Num 5)
                 [ElementNode (ListItemNode 0 [Text (TextNode ''a'' 0)]),
                  ElementNode (ListItemNode 0 [Text (TextNode ''b'' 0)])]))]
    \<and> ORDERED_LIST_export
          (ElementNode (ListNodeE (ListNode OL (Num 5)
                 [ElementNode (ListItemNode 0 [Text (TextNode ''a'' 0)]),
                  ElementNode (ListItemNode 0 [Text (TextNode ''b'' 0)])])))
          getTextContentE
        = Some ''5. a\<newline>6. b''"
proof -
  have h: "''5'' \<noteq> []" "list_all is_digit ''5''" "''6'' \<noteq> []" "list_all is_digit ''6''"
    by (simp_all add: is_digit_def)
  have d: "dec ''5'' = 5" by code_simp
  have b: "dec ''5'' + 1 < 2 ^ 53" unfolding d by simp
  have s5: "digits_of 5 = ''5''" and s6: "digits_of (5 + 1) = ''6''" by code_simp+
  note t = ordered_list_start_round_trip[OF h b, of "''a''" "''b''" getTextContentE]
  from t show ?thesis unfolding d s5 s6 by simp
qed



text \<open>
  C10. \<^verbatim>\<open>UNORDERED_LIST.export\<close> and \<^verbatim>\<open>ORDERED_LIST.export\<close> return the same result on
  every node and child exporter: \<^verbatim>\<open>null\<close> exactly on a node that is not a list, and
  \<^verbatim>\<open>listExport\<close> at depth 0 on a list node. The marker follows the tag of the list
  node and not the transformer: \<^verbatim>\<open>ORDERED_LIST.export\<close> writes a dash for a list of tag
  \<^verbatim>\<open>ul\<close>, and \<^verbatim>\<open>UNORDERED_LIST.export\<close> writes the start value for a list of tag \<^verbatim>\<open>ol\<close>.
\<close>

theorem list_exports_agree:
  "UNORDERED_LIST_export node exportChildren = ORDERED_LIST_export node exportChildren
   \<and> (UNORDERED_LIST_export node exportChildren = None) = (\<not> isListNode (Some node))
   \<and> ORDERED_LIST_export (ElementNode (ListNodeE listNode)) exportChildren
       = Some (listExport listNode exportChildren 0)
   \<and> UNORDERED_LIST_export (ElementNode (ListNodeE listNode)) exportChildren
       = Some (listExport listNode exportChildren 0)
   \<and> ORDERED_LIST_export
       (ElementNode (ListNodeE (ListNode UL start [ElementNode (ListItemNode ind [Text t])])))
       exportChildren
       = Some (''- '' @ exportChildren (ListItemNode ind [Text t]))
   \<and> UNORDERED_LIST_export
       (ElementNode (ListNodeE (ListNode OL start [ElementNode (ListItemNode ind [Text t])])))
       exportChildren
       = Some (String start @ ''. '' @ exportChildren (ListItemNode ind [Text t]))"
proof -
  have same: "UNORDERED_LIST_export n f = ORDERED_LIST_export n f" for n f
    by (simp add: UNORDERED_LIST_export_def ORDERED_LIST_export_def)
  have null: "(UNORDERED_LIST_export node exportChildren = None) = (\<not> isListNode (Some node))"
    by (simp add: UNORDERED_LIST_export_def isListNode_def split: option.splits)
  have on_list: "ORDERED_LIST_export (ElementNode (ListNodeE l)) f = Some (listExport l f 0)" for l f
    by (simp add: ORDERED_LIST_export_def)
  have dash: "listExport (ListNode UL start [ElementNode (ListItemNode ind [Text t])]) exportChildren 0
      = ''- '' @ exportChildren (ListItemNode ind [Text t])"
    by (simp add: getChildrenSize_def getFirstChild_def)
  have number: "listExport (ListNode OL start [ElementNode (ListItemNode ind [Text t])]) exportChildren 0
      = String start @ ''. '' @ exportChildren (ListItemNode ind [Text t])"
    by (simp add: getChildrenSize_def getFirstChild_def js_add_0)
  show ?thesis
    unfolding same on_list dash number using null[unfolded same] by simp
qed

text \<open>
  Two runs of the model: the end-anchored pattern of \<^verbatim>\<open>LINK\<close> on a text that ends with a
  link and on one that does not, and the export of a list with a nested ordered list
  that starts at 3.
\<close>

lemma LINK_regExp_example:
  "exec LINK_regExp ''see [a](b)'' = Some [Some ''[a](b)'', Some ''a'', Some ''b'']
   \<and> exec LINK_regExp ''see [a](b) '' = None"
  by code_simp

lemma listExport_nested_example:
  "listExport
     (ListNode UL (Num 1)
        [ElementNode (ListItemNode 0 [Text (TextNode ''a'' 0)]),
         ElementNode (ListItemNode 0
           [ElementNode (ListNodeE (ListNode OL (Num 3)
              [ElementNode (ListItemNode 1 [Text (TextNode ''b'' 0)]),
               ElementNode (ListItemNode 1 [Text (TextNode ''c'' 0)])]))]),
         ElementNode (ListItemNode 0 [Text (TextNode ''d'' 0)])])
     getTextContentE 0
   = ''- a\<newline>    3. b\<newline>    4. c\<newline>- d''"
  by code_simp

end
